theory Spec2Isabelle
  imports Complex_Main "HOL-Library.AList" "HOL-Library.Multiset"
begin

section \<open>Values decoded from the feed\<close>

text \<open>
  The program is \<^verbatim>\<open>polymarket_api/live_orderbook.py\<close>. A frame of the feed is
  decoded by \<^verbatim>\<open>json.loads\<close> into Python values; \<open>json\<close> is the type of those values.
  A Python \<^verbatim>\<open>dict\<close> keeps its keys in insertion order and holds each key once: it is an
  association list, read with \<open>map_of\<close> and written with \<open>AList.update\<close> (which
  overwrites in place or appends at the end, as a \<^verbatim>\<open>dict\<close> assignment does).
  A \<^verbatim>\<open>float\<close> is observed by the program only through \<^verbatim>\<open>str\<close> and through its truth
  value, so \<open>JFloat\<close> carries the text that \<^verbatim>\<open>str\<close> returns for it
  (\<^verbatim>\<open>0.45\<close>, \<^verbatim>\<open>1e-07\<close>, \<^verbatim>\<open>inf\<close>, \<^verbatim>\<open>nan\<close>).
  Characters are ASCII.
\<close>

datatype json =
    JNull
  | JBool bool
  | JInt int
  | JFloat string
  | JStr string
  | JList "json list"
  | JObj "(string \<times> json) list"

datatype exn =
    ConnectionClosed
  | OSError
  | TimeoutError
  | JSONDecodeError
  | InvalidOperation
  | ValueError
  | OtherException

subsection \<open>\<^verbatim>\<open>str\<close>, truth values, \<^verbatim>\<open>dict.get\<close>\<close>

definition digit_char :: "nat \<Rightarrow> char" where
  "digit_char d = ''0123456789'' ! d"

fun digits_of_nat :: "nat \<Rightarrow> string" where
  "digits_of_nat n = (if n < 10 then [digit_char n] else digits_of_nat (n div 10) @ [digit_char (n mod 10)])"

definition str_int :: "int \<Rightarrow> string" where
  "str_int i = (if i < 0 then CHR ''-'' # digits_of_nat (nat (- i)) else digits_of_nat (nat i))"

definition hex_char :: "nat \<Rightarrow> char" where
  "hex_char d = ''0123456789abcdef'' ! d"

text \<open>\<^verbatim>\<open>repr\<close> of a \<^verbatim>\<open>str\<close>: double quotes when the text holds a single quote and no
  double quote, single quotes otherwise; backslash, the chosen quote and control characters
  escaped.\<close>

definition repr_char :: "char \<Rightarrow> char \<Rightarrow> string" where
  "repr_char q c =
     (if c = CHR 0x5C then [CHR 0x5C, CHR 0x5C]
      else if c = q then [CHR 0x5C, q]
      else if c = CHR 0x0A then [CHR 0x5C, CHR ''n'']
      else if c = CHR 0x0D then [CHR 0x5C, CHR ''r'']
      else if c = CHR 0x09 then [CHR 0x5C, CHR ''t'']
      else if (of_char c :: nat) < 32 \<or> (of_char c :: nat) = 127
        then [CHR 0x5C, CHR ''x'', hex_char ((of_char c :: nat) div 16), hex_char ((of_char c :: nat) mod 16)]
      else [c])"

definition repr_str :: "string \<Rightarrow> string" where
  "repr_str s =
     (let q = (if CHR 0x27 \<in> set s \<and> CHR 0x22 \<notin> set s then CHR 0x22 else CHR 0x27)
      in q # concat (map (repr_char q) s) @ [q])"

fun join_comma :: "string list \<Rightarrow> string" where
  "join_comma [] = []"
| "join_comma [x] = x"
| "join_comma (x # y # ys) = x @ '', '' @ join_comma (y # ys)"

fun py_repr :: "json \<Rightarrow> string" where
  "py_repr JNull = ''None''"
| "py_repr (JBool b) = (if b then ''True'' else ''False'')"
| "py_repr (JInt i) = str_int i"
| "py_repr (JFloat t) = t"
| "py_repr (JStr s) = repr_str s"
| "py_repr (JList xs) = ''['' @ join_comma (map py_repr xs) @ '']''"
| "py_repr (JObj kvs) =
     ''{'' @ join_comma (map (\<lambda>kv. repr_str (fst kv) @ '': '' @ py_repr (snd kv)) kvs) @ ''}''"

definition py_str :: "json \<Rightarrow> string" where
  "py_str v = (case v of JStr s \<Rightarrow> s | _ \<Rightarrow> py_repr v)"

fun truthy :: "json \<Rightarrow> bool" where
  "truthy JNull = False"
| "truthy (JBool b) = b"
| "truthy (JInt i) = (i \<noteq> 0)"
| "truthy (JFloat t) = (t \<noteq> ''0.0'' \<and> t \<noteq> ''-0.0'')"
| "truthy (JStr s) = (s \<noteq> [])"
| "truthy (JList xs) = (xs \<noteq> [])"
| "truthy (JObj kvs) = (kvs \<noteq> [])"

text \<open>\<^verbatim>\<open>a or b\<close>.\<close>

definition py_or :: "json \<Rightarrow> json \<Rightarrow> json" where
  "py_or a b = (if truthy a then a else b)"

text \<open>\<^verbatim>\<open>d.get(k)\<close>: the value, or \<^verbatim>\<open>None\<close> when the key is missing;
  \<^verbatim>\<open>k in d\<close>.\<close>

definition get :: "(string \<times> json) list \<Rightarrow> string \<Rightarrow> json" where
  "get d k = (case map_of d k of None \<Rightarrow> JNull | Some v \<Rightarrow> v)"

definition has_key :: "(string \<times> json) list \<Rightarrow> string \<Rightarrow> bool" where
  "has_key d k = (map_of d k \<noteq> None)"

section \<open>\<^verbatim>\<open>decimal.Decimal\<close>\<close>

text \<open>
  A \<^verbatim>\<open>Decimal\<close> is a sign, a coefficient and an exponent, or an infinity, or a NaN (quiet
  or signaling, with a payload). The sign is \<open>True\<close> for a negative number.
  The arithmetic context is the default one, which the program never changes: precision
  28, rounding half to even, \<^verbatim>\<open>InvalidOperation\<close> trapped (raised as an exception).
\<close>

datatype decimal =
    Finite bool nat int
  | Infinity bool
  | NaN bool bool nat

definition is_space :: "char \<Rightarrow> bool" where
  "is_space c = ((of_char c :: nat) \<in> {9, 10, 11, 12, 13, 28, 29, 30, 31, 32})"

definition strip :: "string \<Rightarrow> string" where
  "strip s = rev (dropWhile is_space (rev (dropWhile is_space s)))"

definition is_digit :: "char \<Rightarrow> bool" where
  "is_digit c = (48 \<le> (of_char c :: nat) \<and> (of_char c :: nat) \<le> 57)"

definition nat_of_digits :: "string \<Rightarrow> nat" where
  "nat_of_digits s = foldl (\<lambda>n c. 10 * n + ((of_char c :: nat) - 48)) 0 s"

definition lower :: "char \<Rightarrow> char" where
  "lower c =
     (case map_of (zip ''ABCDEFGHIJKLMNOPQRSTUVWXYZ'' ''abcdefghijklmnopqrstuvwxyz'') c of
        None \<Rightarrow> c
      | Some l \<Rightarrow> l)"

fun split_sign :: "string \<Rightarrow> bool \<times> string" where
  "split_sign [] = (False, [])"
| "split_sign (c # cs) =
     (if c = CHR ''-'' then (True, cs) else if c = CHR ''+'' then (False, cs) else (False, c # cs))"

text \<open>The exponent after \<^verbatim>\<open>E\<close>: an optional sign and at least one digit, up to the end.\<close>

definition parse_exp :: "string \<Rightarrow> int option" where
  "parse_exp s =
     (case split_sign s of (neg, r) \<Rightarrow>
        if r \<noteq> [] \<and> list_all is_digit r
        then Some ((if neg then - 1 else 1) * int (nat_of_digits r))
        else None)"

text \<open>A number: digits, an optional point and digits, an optional exponent; at least one
  digit before or after the point.\<close>

definition parse_number :: "bool \<Rightarrow> string \<Rightarrow> decimal option" where
  "parse_number sg s =
     (let ip = takeWhile is_digit s;
          r1 = dropWhile is_digit s;
          fr = (case r1 of
                  [] \<Rightarrow> ([], [])
                | c # r \<Rightarrow> if c = CHR ''.'' then (takeWhile is_digit r, dropWhile is_digit r)
                           else ([], r1));
          fp = fst fr;
          r2 = snd fr
      in if ip = [] \<and> fp = [] then None
         else (case r2 of
                 [] \<Rightarrow> Some (Finite sg (nat_of_digits (ip @ fp)) (- int (length fp)))
               | c # r \<Rightarrow>
                   if lower c = CHR ''e''
                   then (case parse_exp r of
                           None \<Rightarrow> None
                         | Some e \<Rightarrow> Some (Finite sg (nat_of_digits (ip @ fp)) (e - int (length fp))))
                   else None))"

text \<open>\<^verbatim>\<open>Inf\<close>, \<^verbatim>\<open>Infinity\<close>, \<^verbatim>\<open>NaN\<close> or \<^verbatim>\<open>sNaN\<close> with payload digits, in any case.\<close>

definition parse_special :: "bool \<Rightarrow> string \<Rightarrow> decimal option" where
  "parse_special sg s =
     (let l = map lower s
      in if l = ''inf'' \<or> l = ''infinity'' then Some (Infinity sg)
         else (let signaling = (take 1 l = ''s'');
                   r = (if signaling then drop 1 l else l)
               in if take 3 r = ''nan'' \<and> list_all is_digit (drop 3 r)
                  then Some (NaN sg signaling (nat_of_digits (drop 3 r)))
                  else None))"

text \<open>\<^verbatim>\<open>Decimal(s)\<close> for a \<^verbatim>\<open>str\<close>: surrounding whitespace and all underscores are
  dropped, then the text is a signed number or a special value; \<open>None\<close> is the
  \<^verbatim>\<open>InvalidOperation\<close> the constructor raises on any other text. The exponent is an
  unbounded integer here (CPython's constructor also rejects an exponent of more than
  eighteen digits).\<close>

definition decimal_of_string :: "string \<Rightarrow> decimal option" where
  "decimal_of_string s =
     (case split_sign (filter (\<lambda>c. c \<noteq> CHR ''_'') (strip s)) of (sg, r) \<Rightarrow>
        (case parse_number sg r of
           Some d \<Rightarrow> Some d
         | None \<Rightarrow> parse_special sg r))"

text \<open>\<^verbatim>\<open>_to_decimal(value)\<close>: \<^verbatim>\<open>Decimal(str(value))\<close>, and \<^verbatim>\<open>Decimal("0")\<close> when
  that raises.\<close>

definition to_decimal :: "json \<Rightarrow> decimal" where
  "to_decimal v = (case decimal_of_string (py_str v) of Some d \<Rightarrow> d | None \<Rightarrow> Finite False 0 0)"

text \<open>\<^verbatim>\<open>_to_decimal(p)\<close> for a key \<open>p\<close> of a level map.\<close>

definition to_decimal_str :: "string \<Rightarrow> decimal" where
  "to_decimal_str s = to_decimal (JStr s)"

subsection \<open>Comparison\<close>

text \<open>An ordering comparison with a NaN operand raises \<^verbatim>\<open>InvalidOperation\<close>.\<close>

definition is_nan :: "decimal \<Rightarrow> bool" where
  "is_nan d = (case d of NaN _ _ _ \<Rightarrow> True | _ \<Rightarrow> False)"

definition scaled :: "int \<Rightarrow> bool \<Rightarrow> nat \<Rightarrow> int \<Rightarrow> int" where
  "scaled m sg c e = (if sg then - 1 else 1) * int c * 10 ^ nat (e - m)"

fun num_lt :: "decimal \<Rightarrow> decimal \<Rightarrow> bool" where
  "num_lt (Finite s1 c1 e1) (Finite s2 c2 e2) =
     (scaled (min e1 e2) s1 c1 e1 < scaled (min e1 e2) s2 c2 e2)"
| "num_lt (Finite s1 c1 e1) (Infinity s2) = (\<not> s2)"
| "num_lt (Infinity s1) (Finite s2 c2 e2) = s1"
| "num_lt (Infinity s1) (Infinity s2) = (s1 \<and> \<not> s2)"
| "num_lt (NaN s1 g1 p1) b = False"
| "num_lt a (NaN s2 g2 p2) = False"

definition dec_lt :: "decimal \<Rightarrow> decimal \<Rightarrow> exn + bool" where
  "dec_lt a b = (if is_nan a \<or> is_nan b then Inl InvalidOperation else Inr (num_lt a b))"

definition dec_gt :: "decimal \<Rightarrow> decimal \<Rightarrow> exn + bool" where
  "dec_gt a b = dec_lt b a"

definition dec_ge :: "decimal \<Rightarrow> decimal \<Rightarrow> exn + bool" where
  "dec_ge a b = (if is_nan a \<or> is_nan b then Inl InvalidOperation else Inr (\<not> num_lt a b))"

text \<open>\<^verbatim>\<open>size > 0\<close>.\<close>

definition gt_zero :: "decimal \<Rightarrow> exn + bool" where
  "gt_zero d = dec_gt d (Finite False 0 0)"

subsection \<open>\<^verbatim>\<open>quantize\<close> and \<^verbatim>\<open>format\<close>\<close>

definition round_half_even :: "nat \<Rightarrow> nat \<Rightarrow> nat" where
  "round_half_even c k =
     (let q = c div 10 ^ k; r = c mod 10 ^ k
      in if 10 ^ k < 2 * r \<or> (2 * r = 10 ^ k \<and> odd q) then q + 1 else q)"

definition rescale4 :: "nat \<Rightarrow> int \<Rightarrow> nat" where
  "rescale4 c e = (if - 4 \<le> e then c * 10 ^ nat (e + 4) else round_half_even c (nat (- 4 - e)))"

text \<open>\<^verbatim>\<open>d.quantize(Decimal("0.0001"))\<close>: the coefficient at exponent \<open>-4\<close>, rounded half to
  even; \<^verbatim>\<open>InvalidOperation\<close> for an infinity, for a signaling NaN, and when the result
  would have more than 28 digits. A quiet NaN is returned with its payload cut to 28
  digits.\<close>

fun quantize :: "decimal \<Rightarrow> exn + decimal" where
  "quantize (Finite sg c e) =
     (if 10 ^ 28 \<le> rescale4 c e then Inl InvalidOperation else Inr (Finite sg (rescale4 c e) (- 4)))"
| "quantize (Infinity sg) = Inl InvalidOperation"
| "quantize (NaN sg signaling p) =
     (if signaling then Inl InvalidOperation else Inr (NaN sg False (p mod 10 ^ 28)))"

definition pad_left :: "nat \<Rightarrow> string \<Rightarrow> string" where
  "pad_left k s = replicate (k - length s) CHR ''0'' @ s"

text \<open>\<^verbatim>\<open>format(d, "f")\<close>: the digits in positional notation, with the sign also for a
  zero.\<close>

fun format_f :: "decimal \<Rightarrow> string" where
  "format_f (Finite sg c e) =
     (if sg then ''-'' else '''') @
     (if 0 \<le> e then (if c = 0 then ''0'' else digits_of_nat c @ replicate (nat e) CHR ''0'')
      else digits_of_nat (c div 10 ^ nat (- e)) @ ''.'' @
           pad_left (nat (- e)) (digits_of_nat (c mod 10 ^ nat (- e))))"
| "format_f (Infinity sg) = (if sg then ''-'' else '''') @ ''Infinity''"
| "format_f (NaN sg signaling p) =
     (if sg then ''-'' else '''') @ (if signaling then ''sNaN'' else ''NaN'') @
     (if p = 0 then '''' else digits_of_nat p)"

text \<open>\<^verbatim>\<open>_price_key(value)\<close>. Its one caller passes a \<^verbatim>\<open>Decimal\<close>, which
  \<^verbatim>\<open>_to_decimal\<close> returns as it is (\<^verbatim>\<open>Decimal(str(d))\<close> is \<open>d\<close>).\<close>

definition price_key :: "decimal \<Rightarrow> exn + string" where
  "price_key d = (case quantize d of Inl x \<Rightarrow> Inl x | Inr q \<Rightarrow> Inr (format_f q))"

section \<open>The order book of one instrument\<close>

type_synonym pydict = "(string \<times> json) list"

type_synonym level_map = "(string \<times> decimal) list"

record book =
  bids :: level_map
  asks :: level_map
  best_bid :: "decimal option"
  best_ask :: "decimal option"

text \<open>\<^verbatim>\<open>[x for x in xs if isinstance(x, dict)]\<close>.\<close>

fun dicts_of :: "json list \<Rightarrow> pydict list" where
  "dicts_of [] = []"
| "dicts_of (JObj d # xs) = d # dicts_of xs"
| "dicts_of (x # xs) = dicts_of xs"

definition iter_levels :: "json \<Rightarrow> pydict list" where
  "iter_levels levels = (case levels of JList xs \<Rightarrow> dicts_of xs | _ \<Rightarrow> [])"

text \<open>\<^verbatim>\<open>max(...)\<close> and \<^verbatim>\<open>min(...)\<close> over a sequence: the first element, replaced by each
  later one that compares greater (smaller); a comparison that raises ends the scan, and
  an empty sequence is a \<^verbatim>\<open>ValueError\<close>.\<close>

fun max_from :: "decimal \<Rightarrow> decimal list \<Rightarrow> exn + decimal" where
  "max_from m [] = Inr m"
| "max_from m (x # xs) =
     (case dec_gt x m of Inl e \<Rightarrow> Inl e | Inr b \<Rightarrow> max_from (if b then x else m) xs)"

fun min_from :: "decimal \<Rightarrow> decimal list \<Rightarrow> exn + decimal" where
  "min_from m [] = Inr m"
| "min_from m (x # xs) =
     (case dec_lt x m of Inl e \<Rightarrow> Inl e | Inr b \<Rightarrow> min_from (if b then x else m) xs)"

definition py_max :: "decimal list \<Rightarrow> exn + decimal" where
  "py_max xs = (case xs of [] \<Rightarrow> Inl ValueError | x # r \<Rightarrow> max_from x r)"

definition py_min :: "decimal list \<Rightarrow> exn + decimal" where
  "py_min xs = (case xs of [] \<Rightarrow> Inl ValueError | x # r \<Rightarrow> min_from x r)"

subsection \<open>\<^verbatim>\<open>_apply_book_snapshot\<close>\<close>

text \<open>One of the two \<^verbatim>\<open>for lvl in _iter_levels(...)\<close> loops, filling the map \<open>m\<close>.\<close>

fun fill_map :: "pydict list \<Rightarrow> level_map \<Rightarrow> exn + level_map" where
  "fill_map [] m = Inr m"
| "fill_map (lvl # lvls) m =
     (let price = to_decimal (get lvl ''price'');
          sz = to_decimal (get lvl ''size'')
      in case gt_zero sz of
           Inl e \<Rightarrow> Inl e
         | Inr pos \<Rightarrow>
             if pos
             then (case price_key price of
                     Inl e \<Rightarrow> Inl e
                   | Inr k \<Rightarrow> fill_map lvls (AList.update k sz m))
             else fill_map lvls m)"

definition bids_levels :: "pydict \<Rightarrow> pydict list" where
  "bids_levels msg = iter_levels (py_or (get msg ''bids'') (get msg ''buys''))"

definition asks_levels :: "pydict \<Rightarrow> pydict list" where
  "asks_levels msg = iter_levels (py_or (get msg ''asks'') (get msg ''sells''))"

definition parsed_prices :: "level_map \<Rightarrow> decimal list" where
  "parsed_prices m = map (\<lambda>kv. to_decimal_str (fst kv)) m"

text \<open>The function mutates \<open>state\<close> and returns nothing; the model returns the new state.
  An exception leaves the function with the state updated in part at most; it is caught
  nowhere in the program, so no later step reads the state it leaves behind.\<close>

definition apply_book_snapshot :: "book \<Rightarrow> pydict \<Rightarrow> exn + book" where
  "apply_book_snapshot state msg =
     (case fill_map (bids_levels msg) [] of
        Inl e \<Rightarrow> Inl e
      | Inr bids_map \<Rightarrow>
     (case fill_map (asks_levels msg) [] of
        Inl e \<Rightarrow> Inl e
      | Inr asks_map \<Rightarrow>
     (case (if bids_map \<noteq> [] then map_sum id Some (py_max (parsed_prices bids_map))
            else Inr (best_bid state)) of
        Inl e \<Rightarrow> Inl e
      | Inr bb \<Rightarrow>
     (case (if asks_map \<noteq> [] then map_sum id Some (py_min (parsed_prices asks_map))
            else Inr (best_ask state)) of
        Inl e \<Rightarrow> Inl e
      | Inr ba \<Rightarrow>
          Inr (state\<lparr>bids := bids_map, asks := asks_map, best_bid := bb, best_ask := ba\<rparr>)))))"

subsection \<open>\<^verbatim>\<open>_apply_price_change\<close>\<close>

type_synonym books = "(string \<times> book) list"

definition not_none :: "json \<Rightarrow> bool" where
  "not_none v = (v \<noteq> JNull)"

text \<open>\<^verbatim>\<open>str(msg.get("asset_id") or "")\<close>.\<close>

definition asset_id_of :: "pydict \<Rightarrow> string" where
  "asset_id_of msg = py_str (py_or (get msg ''asset_id'') (JStr []))"

text \<open>The state of a tracked instrument after one change record.\<close>

definition change_state :: "book \<Rightarrow> pydict \<Rightarrow> book" where
  "change_state state item =
     (let best_bid_raw = get item ''best_bid'';
          best_ask_raw = get item ''best_ask'';
          s1 = (if not_none best_bid_raw then state\<lparr>best_bid := Some (to_decimal best_bid_raw)\<rparr>
                else state)
      in if not_none best_ask_raw then s1\<lparr>best_ask := Some (to_decimal best_ask_raw)\<rparr> else s1)"

text \<open>One pass of the loop body over \<open>item\<close>, with the flag \<open>changed\<close>.\<close>

definition change_item :: "pydict \<Rightarrow> books \<times> bool \<Rightarrow> books \<times> bool" where
  "change_item item acc =
     (case map_of (fst acc) (asset_id_of item) of
        None \<Rightarrow> acc
      | Some state \<Rightarrow>
          (AList.update (asset_id_of item) (change_state state item) (fst acc),
           (if not_none (get item ''best_bid'') then True
            else if not_none (get item ''best_ask'') then True
            else snd acc)))"

definition apply_price_change :: "books \<Rightarrow> pydict \<Rightarrow> books \<times> bool" where
  "apply_price_change bks msg = fold change_item (iter_levels (get msg ''price_changes'')) (bks, False)"

subsection \<open>\<^verbatim>\<open>_levels_desc\<close>, \<^verbatim>\<open>_levels_asc\<close> and the spread of \<^verbatim>\<open>_build_outcome_panel\<close>\<close>

text \<open>\<^verbatim>\<open>[(_to_decimal(price), size) for price, size in level_map.items() if size > 0]\<close>.\<close>

fun positive_rows :: "level_map \<Rightarrow> exn + (decimal \<times> decimal) list" where
  "positive_rows [] = Inr []"
| "positive_rows (kv # m) =
     (case gt_zero (snd kv) of
        Inl e \<Rightarrow> Inl e
      | Inr pos \<Rightarrow>
          (case positive_rows m of
             Inl e \<Rightarrow> Inl e
           | Inr rows \<Rightarrow> Inr (if pos then (to_decimal_str (fst kv), snd kv) # rows else rows)))"

text \<open>\<^verbatim>\<open>list.sort\<close> is stable, and it compares every element of a list of two or more at
  least once, so it raises exactly when such a list holds a NaN key. The sorted list is
  given by a stable insertion sort.\<close>

fun insert_desc :: "decimal \<times> decimal \<Rightarrow> (decimal \<times> decimal) list \<Rightarrow> (decimal \<times> decimal) list" where
  "insert_desc x [] = [x]"
| "insert_desc x (y # ys) = (if num_lt (fst x) (fst y) then y # insert_desc x ys else x # y # ys)"

fun insert_asc :: "decimal \<times> decimal \<Rightarrow> (decimal \<times> decimal) list \<Rightarrow> (decimal \<times> decimal) list" where
  "insert_asc x [] = [x]"
| "insert_asc x (y # ys) = (if num_lt (fst y) (fst x) then y # insert_asc x ys else x # y # ys)"

definition sort_raises :: "(decimal \<times> decimal) list \<Rightarrow> bool" where
  "sort_raises rows = (2 \<le> length rows \<and> list_ex (\<lambda>r. is_nan (fst r)) rows)"

definition sort_desc :: "(decimal \<times> decimal) list \<Rightarrow> exn + (decimal \<times> decimal) list" where
  "sort_desc rows = (if sort_raises rows then Inl InvalidOperation else Inr (foldr insert_desc rows []))"

definition sort_asc :: "(decimal \<times> decimal) list \<Rightarrow> exn + (decimal \<times> decimal) list" where
  "sort_asc rows = (if sort_raises rows then Inl InvalidOperation else Inr (foldr insert_asc rows []))"

text \<open>The slice \<^verbatim>\<open>rows[:depth]\<close>; a negative \<open>depth\<close> counts from the end.\<close>

definition slice_to :: "int \<Rightarrow> 'a list \<Rightarrow> 'a list" where
  "slice_to depth rows =
     (if 0 \<le> depth then take (nat depth) rows else take (length rows - nat (- depth)) rows)"

definition levels_desc :: "level_map \<Rightarrow> int \<Rightarrow> exn + (decimal \<times> decimal) list" where
  "levels_desc m depth =
     (case positive_rows m of
        Inl e \<Rightarrow> Inl e
      | Inr rows \<Rightarrow> (case sort_desc rows of Inl e \<Rightarrow> Inl e | Inr s \<Rightarrow> Inr (slice_to depth s)))"

definition levels_asc :: "level_map \<Rightarrow> int \<Rightarrow> exn + (decimal \<times> decimal) list" where
  "levels_asc m depth =
     (case positive_rows m of
        Inl e \<Rightarrow> Inl e
      | Inr rows \<Rightarrow> (case sort_asc rows of Inl e \<Rightarrow> Inl e | Inr s \<Rightarrow> Inr (slice_to depth s)))"

text \<open>The test that guards the spread and the mid in \<^verbatim>\<open>_build_outcome_panel\<close>:
  \<^verbatim>\<open>best_bid is not None and best_ask is not None and best_ask >= best_bid\<close>.\<close>

definition spread_shown :: "book \<Rightarrow> exn + bool" where
  "spread_shown state =
     (case best_bid state of
        None \<Rightarrow> Inr False
      | Some b \<Rightarrow> (case best_ask state of None \<Rightarrow> Inr False | Some a \<Rightarrow> dec_ge a b))"

text \<open>What \<^verbatim>\<open>_build_outcome_panel\<close> reads of a state: the ask rows (shown far to near), the
  bid rows, and whether a spread and a mid are derived. Their arithmetic and the painting
  of the panel are not part of the model.\<close>

record panel =
  ask_rows :: "(decimal \<times> decimal) list"
  bid_rows :: "(decimal \<times> decimal) list"
  has_spread :: bool

definition build_outcome_panel :: "book \<Rightarrow> int \<Rightarrow> exn + panel" where
  "build_outcome_panel state depth =
     (case levels_asc (asks state) depth of
        Inl e \<Rightarrow> Inl e
      | Inr a \<Rightarrow>
     (case levels_desc (bids state) depth of
        Inl e \<Rightarrow> Inl e
      | Inr b \<Rightarrow>
     (case spread_shown state of
        Inl e \<Rightarrow> Inl e
      | Inr sp \<Rightarrow> Inr \<lparr>ask_rows = rev a, bid_rows = b, has_spread = sp\<rparr>)))"

section \<open>\<^verbatim>\<open>stream_market_orderbook\<close>\<close>

subsection \<open>One frame\<close>

text \<open>\<^verbatim>\<open>str(msg.get("event_type") or "")\<close>.\<close>

definition event_type_of :: "pydict \<Rightarrow> string" where
  "event_type_of msg = py_str (py_or (get msg ''event_type'') (JStr []))"

definition is_snapshot :: "pydict \<Rightarrow> bool" where
  "is_snapshot msg =
     (event_type_of msg = ''book'' \<or>
      (has_key msg ''asset_id'' \<and> (has_key msg ''bids'' \<or> has_key msg ''asks'')))"

text \<open>The body of \<^verbatim>\<open>for msg in items\<close>, with the books and the flag \<open>changed\<close>.\<close>

definition process_msg :: "pydict \<Rightarrow> books \<times> bool \<Rightarrow> exn + books \<times> bool" where
  "process_msg msg acc =
     (if is_snapshot msg
      then (case map_of (fst acc) (asset_id_of msg) of
              None \<Rightarrow> Inr acc
            | Some state \<Rightarrow>
                (case apply_book_snapshot state msg of
                   Inl e \<Rightarrow> Inl e
                 | Inr state' \<Rightarrow> Inr (AList.update (asset_id_of msg) state' (fst acc), True)))
      else if event_type_of msg = ''price_change''
      then (case apply_price_change (fst acc) msg of
              (bks, ch) \<Rightarrow> Inr (bks, (if ch then True else snd acc)))
      else Inr acc)"

fun process_msgs :: "pydict list \<Rightarrow> books \<times> bool \<Rightarrow> exn + books \<times> bool" where
  "process_msgs [] acc = Inr acc"
| "process_msgs (msg # msgs) acc =
     (case process_msg msg acc of Inl e \<Rightarrow> Inl e | Inr acc' \<Rightarrow> process_msgs msgs acc')"

text \<open>The payload of a frame: a list gives its dicts, a dict gives itself, anything else
  is skipped (\<^verbatim>\<open>continue\<close>).\<close>

definition process_frame :: "books \<Rightarrow> json \<Rightarrow> exn + books \<times> bool" where
  "process_frame bks payload =
     (case payload of
        JList xs \<Rightarrow> process_msgs (dicts_of xs) (bks, False)
      | JObj d \<Rightarrow> process_msgs [d] (bks, False)
      | _ \<Rightarrow> Inr (bks, False))"

subsection \<open>The connection loop\<close>

text \<open>
  The loop is driven by what the awaited calls do: \<open>Established\<close> is
  \<^verbatim>\<open>websockets.connect\<close> and \<^verbatim>\<open>ws.send\<close> both returning, \<open>Received\<close> is \<^verbatim>\<open>ws.recv\<close>
  returning a frame, \<open>Raised\<close> is the awaited call raising, \<open>Slept\<close> is
  \<^verbatim>\<open>asyncio.sleep\<close> returning. A frame is \<open>Malformed\<close> when \<^verbatim>\<open>json.loads\<close> raises on
  its text, and \<open>Decoded\<close> with the value \<^verbatim>\<open>json.loads\<close> returns otherwise.
  \<open>sleeps\<close> records the delays passed to \<^verbatim>\<open>asyncio.sleep\<close>, oldest first. The delays
  are the floats 1.0, 2.0, 4.0, 8.0, 16.0 and 30.0, on which doubling and \<^verbatim>\<open>min\<close> are
  exact, so they are rationals here. The status text and the calls that repaint the
  dashboard are not part of the model.
\<close>

datatype phase = Connecting | Streaming | Backoff

datatype frame = Malformed | Decoded json

datatype event = Established | Received frame | Raised exn | Slept

record session =
  books :: books
  reconnect_delay :: rat
  phase :: phase
  sleeps :: "rat list"

datatype outcome = Running session | Crashed exn

text \<open>\<^verbatim>\<open>except (ConnectionClosed, OSError, asyncio.TimeoutError)\<close>.\<close>

definition caught :: "exn \<Rightarrow> bool" where
  "caught e = (e = ConnectionClosed \<or> e = OSError \<or> e = TimeoutError)"

text \<open>An exception inside the \<^verbatim>\<open>try\<close>: the handler starts the sleep, any other exception
  leaves the function.\<close>

definition on_error :: "session \<Rightarrow> exn \<Rightarrow> outcome" where
  "on_error s e =
     (if caught e then Running (s\<lparr>phase := Backoff, sleeps := sleeps s @ [reconnect_delay s]\<rparr>)
      else Crashed e)"

definition on_frame :: "session \<Rightarrow> frame \<Rightarrow> outcome" where
  "on_frame s f =
     (case f of
        Malformed \<Rightarrow> on_error s JSONDecodeError
      | Decoded payload \<Rightarrow>
          (case process_frame (books s) payload of
             Inl e \<Rightarrow> on_error s e
           | Inr r \<Rightarrow> Running (s\<lparr>books := fst r\<rparr>)))"

text \<open>An event that cannot occur in the current phase leaves the session as it is.\<close>

definition step :: "session \<Rightarrow> event \<Rightarrow> outcome" where
  "step s ev =
     (case phase s of
        Connecting \<Rightarrow>
          (case ev of
             Established \<Rightarrow> Running (s\<lparr>reconnect_delay := 1, phase := Streaming\<rparr>)
           | Raised e \<Rightarrow> on_error s e
           | _ \<Rightarrow> Running s)
      | Streaming \<Rightarrow>
          (case ev of
             Received f \<Rightarrow> on_frame s f
           | Raised e \<Rightarrow> on_error s e
           | _ \<Rightarrow> Running s)
      | Backoff \<Rightarrow>
          (case ev of
             Slept \<Rightarrow> Running (s\<lparr>reconnect_delay := min 30 (reconnect_delay s * 2), phase := Connecting\<rparr>)
           | Raised e \<Rightarrow> Crashed e
           | _ \<Rightarrow> Running s))"

fun run :: "session \<Rightarrow> event list \<Rightarrow> outcome" where
  "run s [] = Running s"
| "run s (ev # evs) = (case step s ev of Running s' \<Rightarrow> run s' evs | Crashed e \<Rightarrow> Crashed e)"

definition empty_book :: book where
  "empty_book = \<lparr>bids = [], asks = [], best_bid = None, best_ask = None\<rparr>"

text \<open>\<^verbatim>\<open>{token_id: {...} for token_id in token_ids}\<close>.\<close>

definition init_books :: "string list \<Rightarrow> books" where
  "init_books token_ids = fold (\<lambda>t b. AList.update t empty_book b) token_ids []"

definition init :: "string list \<Rightarrow> session" where
  "init token_ids =
     \<lparr>books = init_books token_ids, reconnect_delay = 1, phase = Connecting, sleeps = []\<rparr>"

text \<open>\<^verbatim>\<open>stream_market_orderbook\<close> for the instruments \<open>token_ids\<close>: the books start
  empty and the delay at 1.0, and the loop takes the events in turn.\<close>

definition stream_market_orderbook :: "string list \<Rightarrow> event list \<Rightarrow> outcome" where
  "stream_market_orderbook token_ids evs = run (init token_ids) evs"

text \<open>A run of consecutive failures: each awaited call raises, and the sleep that follows
  returns.\<close>

definition failures :: "exn list \<Rightarrow> event list" where
  "failures es = concat (map (\<lambda>e. [Raised e, Slept]) es)"

text \<open>What holds of the delay in every session the loop reaches.\<close>

definition delay_ok :: "session \<Rightarrow> bool" where
  "delay_ok s =
     (1 \<le> reconnect_delay s \<and> reconnect_delay s \<le> 30 \<and>
      (phase s = Streaming \<longrightarrow> reconnect_delay s = 1))"


text \<open>Every size stored in a level map compares greater than zero.\<close>

definition sizes_positive :: "book \<Rightarrow> bool" where
  "sizes_positive st =
     (list_all (\<lambda>kv. gt_zero (snd kv) = Inr True) (bids st) \<and>
      list_all (\<lambda>kv. gt_zero (snd kv) = Inr True) (asks st))"

definition books_positive :: "books \<Rightarrow> bool" where
  "books_positive bks = list_all (\<lambda>tb. sizes_positive (snd tb)) bks"

text \<open>Numerical equality of two decimals, as \<^verbatim>\<open>==\<close> decides it: neither is less than the
  other, and neither is a NaN.\<close>

definition num_eq :: "decimal \<Rightarrow> decimal \<Rightarrow> bool" where
  "num_eq a b = (\<not> is_nan a \<and> \<not> is_nan b \<and> \<not> num_lt a b \<and> \<not> num_lt b a)"




subsection \<open>Example frames and states\<close>

definition level :: "string \<Rightarrow> string \<Rightarrow> json" where
  "level p s = JObj [(''price'', JStr p), (''size'', JStr s)]"

text \<open>The snapshot of the specification's example, for an instrument \<open>X\<close>, and the state
  it leaves in an empty book.\<close>

definition snapshot_example :: pydict where
  "snapshot_example =
     [(''event_type'', JStr ''book''), (''asset_id'', JStr ''X''),
      (''bids'', JList [level ''0.45'' ''10'', level ''0.40'' ''0'']),
      (''asks'', JList [level ''0.55'' ''5''])]"

definition book_example :: book where
  "book_example =
     \<lparr>bids = [(''0.4500'', Finite False 10 0)], asks = [(''0.5500'', Finite False 5 0)],
      best_bid = Some (Finite False 4500 (- 4)), best_ask = Some (Finite False 5500 (- 4))\<rparr>"

text \<open>A snapshot with a list for the bids only.\<close>

definition bids_only_example :: pydict where
  "bids_only_example =
     [(''event_type'', JStr ''book''), (''asset_id'', JStr ''X''),
      (''bids'', JList [level ''0.46'' ''7''])]"

text \<open>The price change of the specification's example, and one for an instrument that is not
  tracked.\<close>

definition delta_example :: pydict where
  "delta_example =
     [(''event_type'', JStr ''price_change''),
      (''price_changes'', JList [JObj [(''asset_id'', JStr ''X''), (''best_bid'', JStr ''0.46'')]])]"


text \<open>A snapshot with two bid levels priced zero, one of them with a negative sign, and the
  state it leaves in an empty book.\<close>

definition zero_snapshot_example :: pydict where
  "zero_snapshot_example =
     [(''event_type'', JStr ''book''), (''asset_id'', JStr ''X''),
      (''bids'', JList [level ''0'' ''1'', level ''-0'' ''2''])]"


text \<open>An object with an instrument and a \<^verbatim>\<open>buys\<close> list, and no event type.\<close>

definition buys_only_example :: pydict where
  "buys_only_example = [(''asset_id'', JStr ''X''), (''buys'', JList [level ''0.45'' ''10''])]"


section \<open>Properties\<close>

subsection \<open>Evaluation\<close>

lemma replicate_numeral: "replicate (numeral k) x = x # replicate (pred_numeral k) x"
  by (simp add: numeral_eq_Suc)

lemmas parse_defs = to_decimal_def to_decimal_str_def py_str_def decimal_of_string_def strip_def
  is_space_def parse_number_def parse_special_def parse_exp_def is_digit_def nat_of_digits_def
  lower_def str_int_def

lemmas dec_defs = price_key_def rescale4_def round_half_even_def pad_left_def digit_char_def
  gt_zero_def dec_gt_def dec_lt_def dec_ge_def is_nan_def scaled_def replicate_numeral

lemmas book_defs = iter_levels_def py_max_def py_min_def bids_levels_def asks_levels_def
  parsed_prices_def apply_book_snapshot_def not_none_def asset_id_of_def change_state_def
  change_item_def apply_price_change_def sort_raises_def sort_desc_def sort_asc_def slice_to_def
  levels_desc_def levels_asc_def spread_shown_def build_outcome_panel_def py_or_def get_def
  has_key_def

lemmas loop_defs = event_type_of_def is_snapshot_def process_msg_def process_frame_def caught_def
  on_error_def on_frame_def step_def empty_book_def init_books_def init_def
  stream_market_orderbook_def

subsection \<open>The order of decimals\<close>

lemma scaled_common:
  assumes "M \<le> m" "m \<le> e"
  shows "scaled M sg c e = scaled m sg c e * 10 ^ nat (m - M)"
proof -
  have "nat (e - M) = nat (e - m) + nat (m - M)"
    using assms by simp
  then show ?thesis
    by (simp add: scaled_def power_add)
qed

lemma num_lt_common:
  assumes "M \<le> e1" "M \<le> e2"
  shows "num_lt (Finite s1 c1 e1) (Finite s2 c2 e2) \<longleftrightarrow> scaled M s1 c1 e1 < scaled M s2 c2 e2"
proof -
  let ?m = "min e1 e2"
  have M: "M \<le> ?m" using assms by simp
  have pos: "(0::int) < 10 ^ nat (?m - M)" by simp
  have "scaled M s1 c1 e1 = scaled ?m s1 c1 e1 * 10 ^ nat (?m - M)"
    by (rule scaled_common [OF M]) simp
  moreover have "scaled M s2 c2 e2 = scaled ?m s2 c2 e2 * 10 ^ nat (?m - M)"
    by (rule scaled_common [OF M]) simp
  ultimately show ?thesis
    using pos by (simp only: num_lt.simps mult_less_cancel_right_pos)
qed

lemma num_lt_irrefl: "\<not> num_lt a a"
  by (cases a) simp_all

lemma num_lt_trans: "num_lt a b \<Longrightarrow> num_lt b c \<Longrightarrow> num_lt a c"
proof (cases a; cases b; cases c)
  fix s1 c1 e1 s2 c2 e2 s3 c3 e3
  assume a: "a = Finite s1 c1 e1" and b: "b = Finite s2 c2 e2" and c: "c = Finite s3 c3 e3"
  assume ab: "num_lt a b" and bc: "num_lt b c"
  let ?M = "min e1 (min e2 e3)"
  have "scaled ?M s1 c1 e1 < scaled ?M s2 c2 e2"
    using ab unfolding a b by (subst (asm) num_lt_common [of ?M]) simp_all
  moreover have "scaled ?M s2 c2 e2 < scaled ?M s3 c3 e3"
    using bc unfolding b c by (subst (asm) num_lt_common [of ?M]) simp_all
  ultimately have "scaled ?M s1 c1 e1 < scaled ?M s3 c3 e3"
    by simp
  then show "num_lt a c"
    unfolding a c by (subst num_lt_common [of ?M]) simp_all
qed simp_all

text \<open>Among decimals that are not NaN, \<open>\<not> num_lt b a\<close> is \<open>a \<le> b\<close>, and it is transitive.\<close>

lemma num_le_trans:
  "\<not> is_nan b \<Longrightarrow> \<not> num_lt b a \<Longrightarrow> \<not> num_lt c b \<Longrightarrow> \<not> num_lt c a"
proof (cases a; cases b; cases c)
  fix s1 c1 e1 s2 c2 e2 s3 c3 e3
  assume a: "a = Finite s1 c1 e1" and b: "b = Finite s2 c2 e2" and c: "c = Finite s3 c3 e3"
  assume ba: "\<not> num_lt b a" and cb: "\<not> num_lt c b"
  let ?M = "min e1 (min e2 e3)"
  have "\<not> scaled ?M s2 c2 e2 < scaled ?M s1 c1 e1"
    using ba unfolding a b by (subst (asm) num_lt_common [of ?M]) simp_all
  moreover have "\<not> scaled ?M s3 c3 e3 < scaled ?M s2 c2 e2"
    using cb unfolding b c by (subst (asm) num_lt_common [of ?M]) simp_all
  ultimately have "\<not> scaled ?M s3 c3 e3 < scaled ?M s1 c1 e1"
    by simp
  then show "\<not> num_lt c a"
    unfolding a c by (subst num_lt_common [of ?M]) simp_all
qed (simp_all add: is_nan_def)

lemma dec_lt_Inr: "dec_lt a b = Inr r \<longleftrightarrow> \<not> is_nan a \<and> \<not> is_nan b \<and> r = num_lt a b"
  by (auto simp: dec_lt_def)

lemma max_from_spec:
  "max_from m xs = Inr r \<Longrightarrow>
     r \<in> set (m # xs) \<and> (\<forall>p \<in> set (m # xs). \<not> num_lt r p) \<and> (xs \<noteq> [] \<longrightarrow> \<not> list_ex is_nan (m # xs))"
proof (induction xs arbitrary: m)
  case Nil
  then show ?case by (simp add: num_lt_irrefl)
next
  case (Cons x xs)
  from Cons.prems obtain b where b: "dec_gt x m = Inr b" and rec: "max_from (if b then x else m) xs = Inr r"
    by (auto split: sum.splits)
  from b have nn: "\<not> is_nan m" "\<not> is_nan x" and bdef: "b = num_lt m x"
    by (simp_all add: dec_gt_def dec_lt_Inr)
  show ?case
  proof (cases b)
    case True
    with rec have IH: "r \<in> set (x # xs)" "\<forall>p \<in> set (x # xs). \<not> num_lt r p"
      "xs \<noteq> [] \<longrightarrow> \<not> list_ex is_nan (x # xs)"
      using Cons.IH [of x] by simp_all
    have "\<not> num_lt r m"
      using IH(2) True bdef num_lt_trans [of r m x] by auto
    then show ?thesis
      using IH nn by (auto simp: list_ex_iff)
  next
    case False
    with rec have IH: "r \<in> set (m # xs)" "\<forall>p \<in> set (m # xs). \<not> num_lt r p"
      "xs \<noteq> [] \<longrightarrow> \<not> list_ex is_nan (m # xs)"
      using Cons.IH [of m] by simp_all
    have "\<not> num_lt r x"
      using IH(2) False bdef nn num_le_trans [of m x r] by auto
    then show ?thesis
      using IH nn by (auto simp: list_ex_iff)
  qed
qed

lemma min_from_spec:
  "min_from m xs = Inr r \<Longrightarrow>
     r \<in> set (m # xs) \<and> (\<forall>p \<in> set (m # xs). \<not> num_lt p r) \<and> (xs \<noteq> [] \<longrightarrow> \<not> list_ex is_nan (m # xs))"
proof (induction xs arbitrary: m)
  case Nil
  then show ?case by (simp add: num_lt_irrefl)
next
  case (Cons x xs)
  from Cons.prems obtain b where b: "dec_lt x m = Inr b" and rec: "min_from (if b then x else m) xs = Inr r"
    by (auto split: sum.splits)
  from b have nn: "\<not> is_nan m" "\<not> is_nan x" and bdef: "b = num_lt x m"
    by (simp_all add: dec_lt_Inr)
  show ?case
  proof (cases b)
    case True
    with rec have IH: "r \<in> set (x # xs)" "\<forall>p \<in> set (x # xs). \<not> num_lt p r"
      "xs \<noteq> [] \<longrightarrow> \<not> list_ex is_nan (x # xs)"
      using Cons.IH [of x] by simp_all
    have "\<not> num_lt m r"
      using IH(2) True bdef num_lt_trans [of x m r] by auto
    then show ?thesis
      using IH nn by (auto simp: list_ex_iff)
  next
    case False
    with rec have IH: "r \<in> set (m # xs)" "\<forall>p \<in> set (m # xs). \<not> num_lt p r"
      "xs \<noteq> [] \<longrightarrow> \<not> list_ex is_nan (m # xs)"
      using Cons.IH [of m] by simp_all
    have "\<not> num_lt x r"
      using IH(2) False bdef nn num_le_trans [of m r x] by auto
    then show ?thesis
      using IH nn by (auto simp: list_ex_iff)
  qed
qed

lemma py_max_spec:
  "py_max xs = Inr r \<Longrightarrow>
     r \<in> set xs \<and> (\<forall>p \<in> set xs. \<not> num_lt r p) \<and> (2 \<le> length xs \<longrightarrow> \<not> list_ex is_nan xs)"
  by (cases xs) (use max_from_spec in \<open>auto simp: py_max_def Suc_le_eq\<close>)

lemma py_min_spec:
  "py_min xs = Inr r \<Longrightarrow>
     r \<in> set xs \<and> (\<forall>p \<in> set xs. \<not> num_lt p r) \<and> (2 \<le> length xs \<longrightarrow> \<not> list_ex is_nan xs)"
  by (cases xs) (use min_from_spec in \<open>auto simp: py_min_def Suc_le_eq\<close>)

subsection \<open>Malformed frames\<close>

text \<open>
  C1. A frame whose text \<^verbatim>\<open>json.loads\<close> rejects is not discarded: the
  \<^verbatim>\<open>JSONDecodeError\<close> is none of the exceptions the loop catches, so in every streaming
  session it leaves \<^verbatim>\<open>stream_market_orderbook\<close>, and no later frame is read.
\<close>

theorem malformed_frame_ends_stream:
  "phase s = Streaming \<Longrightarrow> step s (Received Malformed) = Crashed JSONDecodeError \<and>
     run s (Received Malformed # evs) = Crashed JSONDecodeError"
  by (simp add: step_def on_frame_def on_error_def caught_def)

theorem malformed_frame_ends_stream_witness:
  "stream_market_orderbook [''X''] [Established] =
     Running \<lparr>books = init_books [''X''], reconnect_delay = 1, phase = Streaming, sleeps = []\<rparr> \<and>
   phase \<lparr>books = init_books [''X''], reconnect_delay = 1, phase = Streaming, sleeps = []\<rparr> =
     Streaming \<and>
   run \<lparr>books = init_books [''X''], reconnect_delay = 1, phase = Streaming, sleeps = []\<rparr>
     [Received Malformed, Received (Decoded (JList []))] = Crashed JSONDecodeError \<and>
   stream_market_orderbook [''X''] [Established, Received Malformed, Received (Decoded (JList []))] =
     Crashed JSONDecodeError"
proof -
  let ?s = "\<lparr>books = init_books [''X''], reconnect_delay = 1, phase = Streaming, sleeps = []\<rparr>"
  have st: "phase ?s = Streaming"
    by simp
  have r: "stream_market_orderbook [''X''] [Established] = Running ?s"
    by (simp add: stream_market_orderbook_def init_def step_def)
  from malformed_frame_ends_stream [OF st, of "[Received (Decoded (JList []))]"]
  have c: "run ?s [Received Malformed, Received (Decoded (JList []))] = Crashed JSONDecodeError"
    by simp
  have "stream_market_orderbook [''X''] [Established, Received Malformed, Received (Decoded (JList []))] =
      run ?s [Received Malformed, Received (Decoded (JList []))]"
    by (simp add: stream_market_orderbook_def init_def step_def)
  with r c show ?thesis
    by simp
qed

subsection \<open>Classification of a frame\<close>

text \<open>
  C4. An object with \<^verbatim>\<open>asset_id\<close> and only a \<^verbatim>\<open>buys\<close> list, and no event type, is not
  classified as a snapshot: the test of the loop looks for the keys \<^verbatim>\<open>bids\<close> and
  \<^verbatim>\<open>asks\<close> only, so the frame changes nothing, although \<^verbatim>\<open>_apply_book_snapshot\<close> itself
  reads \<^verbatim>\<open>buys\<close> and would store the level.
\<close>

theorem buys_only_frame_ignored:
  "is_snapshot buys_only_example = False \<and>
   process_frame (init_books [''X'']) (JObj buys_only_example) = Inr (init_books [''X''], False) \<and>
   stream_market_orderbook [''X''] [Established, Received (Decoded (JObj buys_only_example))] =
     Running \<lparr>books = [(''X'', empty_book)], reconnect_delay = 1, phase = Streaming, sleeps = []\<rparr> \<and>
   apply_book_snapshot empty_book buys_only_example =
     Inr \<lparr>bids = [(''0.4500'', Finite False 10 0)], asks = [],
          best_bid = Some (Finite False 4500 (- 4)), best_ask = None\<rparr>"
  by (simp add: buys_only_example_def level_def parse_defs dec_defs book_defs loop_defs)

subsection \<open>Exceptions raised while a frame is processed\<close>

text \<open>Every exception that the processing of a decoded frame raises is an
  \<^verbatim>\<open>InvalidOperation\<close> of the decimal arithmetic, which the loop does not catch.\<close>

lemma dec_lt_raises: "dec_lt a b = Inl e \<Longrightarrow> e = InvalidOperation"
  by (auto simp: dec_lt_def split: if_splits)

lemma gt_zero_raises: "gt_zero d = Inl e \<Longrightarrow> e = InvalidOperation"
  by (auto simp: gt_zero_def dec_gt_def dest: dec_lt_raises)

lemma quantize_raises: "quantize d = Inl e \<Longrightarrow> e = InvalidOperation"
  by (cases d) (auto split: if_splits)

lemma price_key_raises: "price_key d = Inl e \<Longrightarrow> e = InvalidOperation"
  by (auto simp: price_key_def split: sum.splits dest: quantize_raises)

lemma fill_map_raises: "fill_map lvls m = Inl e \<Longrightarrow> e = InvalidOperation"
proof (induction lvls arbitrary: m)
  case Nil
  then show ?case by simp
next
  case (Cons lvl lvls)
  then show ?case
    by (auto simp: Let_def split: sum.splits if_splits dest: gt_zero_raises price_key_raises)
qed

lemma max_from_raises: "max_from m xs = Inl e \<Longrightarrow> e = InvalidOperation"
  by (induction xs arbitrary: m) (auto simp: dec_gt_def split: sum.splits dest: dec_lt_raises)

lemma min_from_raises: "min_from m xs = Inl e \<Longrightarrow> e = InvalidOperation"
  by (induction xs arbitrary: m) (auto split: sum.splits dest: dec_lt_raises)

lemma map_sum_Inl: "map_sum id f x = Inl e \<Longrightarrow> x = Inl e"
  by (cases x) auto

lemma apply_book_snapshot_raises:
  assumes "apply_book_snapshot st msg = Inl e"
  shows "e = InvalidOperation"
proof -
  have mx: "py_max (parsed_prices m) = Inl e \<Longrightarrow> m \<noteq> [] \<Longrightarrow> e = InvalidOperation" for m
    by (cases m) (auto simp: py_max_def parsed_prices_def dest: max_from_raises)
  have mn: "py_min (parsed_prices m) = Inl e \<Longrightarrow> m \<noteq> [] \<Longrightarrow> e = InvalidOperation" for m
    by (cases m) (auto simp: py_min_def parsed_prices_def dest: min_from_raises)
  show ?thesis
    using assms
    by (auto simp: apply_book_snapshot_def split: sum.splits if_splits
        dest: fill_map_raises map_sum_Inl mx mn)
qed

lemma process_msg_raises: "process_msg msg acc = Inl e \<Longrightarrow> e = InvalidOperation"
  by (auto simp: process_msg_def split: if_splits option.splits sum.splits prod.splits
      dest: apply_book_snapshot_raises)

lemma process_msgs_raises: "process_msgs msgs acc = Inl e \<Longrightarrow> e = InvalidOperation"
  by (induction msgs arbitrary: acc) (auto split: sum.splits dest: process_msg_raises)

lemma process_frame_raises: "process_frame bks payload = Inl e \<Longrightarrow> e = InvalidOperation"
  by (cases payload) (auto simp: process_frame_def split: sum.splits
      dest: process_msg_raises process_msgs_raises)

lemma frame_exception_ends_stream:
  "process_frame (books s) payload = Inl e \<Longrightarrow> on_frame s (Decoded payload) = Crashed e"
  by (auto simp: on_frame_def on_error_def caught_def dest: process_frame_raises)

subsection \<open>Snapshots\<close>

lemma map_sum_Some_Inr: "map_sum id Some x = Inr y \<Longrightarrow> \<exists>z. y = Some z \<and> x = Inr z"
  by (cases x) auto

lemma apply_book_snapshot_Inr:
  assumes "apply_book_snapshot st msg = Inr st'"
  shows "fill_map (bids_levels msg) [] = Inr (bids st')"
    and "fill_map (asks_levels msg) [] = Inr (asks st')"
    and "bids st' \<noteq> [] \<Longrightarrow> \<exists>m. best_bid st' = Some m \<and> py_max (parsed_prices (bids st')) = Inr m"
    and "bids st' = [] \<Longrightarrow> best_bid st' = best_bid st"
    and "asks st' \<noteq> [] \<Longrightarrow> \<exists>m. best_ask st' = Some m \<and> py_min (parsed_prices (asks st')) = Inr m"
    and "asks st' = [] \<Longrightarrow> best_ask st' = best_ask st"
  using assms
  by (auto simp: apply_book_snapshot_def split: sum.splits if_splits dest: map_sum_Some_Inr)

lemma absent_side_empty:
  "\<not> has_key msg a \<Longrightarrow> \<not> has_key msg b \<Longrightarrow> iter_levels (py_or (get msg a) (get msg b)) = []"
  by (simp add: has_key_def get_def py_or_def iter_levels_def)

text \<open>
  C2, as the code has it. A snapshot that is applied replaces both maps of the state by the
  maps built from the frame, each built from the empty map: a side with no list in the
  frame is replaced by the empty map, whatever the state held for it.
\<close>

theorem snapshot_replaces_both_sides:
  assumes "apply_book_snapshot st msg = Inr st'"
  shows "fill_map (bids_levels msg) [] = Inr (bids st') \<and>
         fill_map (asks_levels msg) [] = Inr (asks st') \<and>
         (\<not> has_key msg ''asks'' \<and> \<not> has_key msg ''sells'' \<longrightarrow> asks st' = []) \<and>
         (\<not> has_key msg ''bids'' \<and> \<not> has_key msg ''buys'' \<longrightarrow> bids st' = [])"
proof -
  have b: "fill_map (bids_levels msg) [] = Inr (bids st')"
    and a: "fill_map (asks_levels msg) [] = Inr (asks st')"
    using apply_book_snapshot_Inr(1,2) [OF assms] by simp_all
  have "asks st' = []" if "\<not> has_key msg ''asks''" "\<not> has_key msg ''sells''"
    using a absent_side_empty [OF that] by (simp add: asks_levels_def)
  moreover have "bids st' = []" if "\<not> has_key msg ''bids''" "\<not> has_key msg ''buys''"
    using b absent_side_empty [OF that] by (simp add: bids_levels_def)
  ultimately show ?thesis
    using a b by blast
qed

lemma bids_only_applied:
  "apply_book_snapshot book_example bids_only_example =
     Inr \<lparr>bids = [(''0.4600'', Finite False 7 0)], asks = [],
          best_bid = Some (Finite False 4600 (- 4)), best_ask = Some (Finite False 5500 (- 4))\<rparr>"
  by (simp add: book_example_def bids_only_example_def level_def parse_defs dec_defs book_defs)

theorem snapshot_replaces_both_sides_witness:
  "apply_book_snapshot book_example bids_only_example =
     Inr \<lparr>bids = [(''0.4600'', Finite False 7 0)], asks = [],
          best_bid = Some (Finite False 4600 (- 4)), best_ask = Some (Finite False 5500 (- 4))\<rparr> \<and>
   fill_map (bids_levels bids_only_example) [] = Inr [(''0.4600'', Finite False 7 0)] \<and>
   fill_map (asks_levels bids_only_example) [] = Inr [] \<and>
   has_key bids_only_example ''asks'' = False \<and> has_key bids_only_example ''sells'' = False"
  using snapshot_replaces_both_sides [OF bids_only_applied] bids_only_applied
  by (simp add: bids_only_example_def has_key_def)

text \<open>
  C2, as it is stated, fails: the example state holds one ask level, the frame has a list
  for the bids only (no \<^verbatim>\<open>asks\<close> and no \<^verbatim>\<open>sells\<close> key), and applying it empties the asks
  map instead of leaving it unchanged.
\<close>

theorem one_sided_snapshot_counterexample:
  "has_key bids_only_example ''bids'' \<and>
   \<not> has_key bids_only_example ''asks'' \<and> \<not> has_key bids_only_example ''sells'' \<and>
   asks book_example = [(''0.5500'', Finite False 5 0)] \<and>
   apply_book_snapshot book_example bids_only_example =
     Inr \<lparr>bids = [(''0.4600'', Finite False 7 0)], asks = [],
          best_bid = Some (Finite False 4600 (- 4)), best_ask = Some (Finite False 5500 (- 4))\<rparr>"
  by (simp add: book_example_def bids_only_example_def level_def parse_defs dec_defs book_defs)

text \<open>
  C3. After a snapshot is applied, with the new bids map not empty the best bid is a parsed
  price of that map that no parsed price of the map exceeds (and with two or more levels
  none of them is a NaN); with the new bids map empty the best bid is what it was before,
  \<open>None\<close> included. The best ask is, in the same way, a least parsed price of a new asks
  map that is not empty, and unchanged otherwise.
\<close>

theorem snapshot_best_prices:
  assumes "apply_book_snapshot st msg = Inr st'"
  shows "fill_map (bids_levels msg) [] = Inr (bids st') \<and>
         fill_map (asks_levels msg) [] = Inr (asks st') \<and>
         (bids st' \<noteq> [] \<longrightarrow>
            (\<exists>m. best_bid st' = Some m \<and> m \<in> set (parsed_prices (bids st')) \<and>
                 (\<forall>p \<in> set (parsed_prices (bids st')). \<not> num_lt m p) \<and>
                 (2 \<le> length (bids st') \<longrightarrow> \<not> list_ex is_nan (parsed_prices (bids st'))))) \<and>
         (bids st' = [] \<longrightarrow> best_bid st' = best_bid st) \<and>
         (asks st' \<noteq> [] \<longrightarrow>
            (\<exists>m. best_ask st' = Some m \<and> m \<in> set (parsed_prices (asks st')) \<and>
                 (\<forall>p \<in> set (parsed_prices (asks st')). \<not> num_lt p m) \<and>
                 (2 \<le> length (asks st') \<longrightarrow> \<not> list_ex is_nan (parsed_prices (asks st'))))) \<and>
         (asks st' = [] \<longrightarrow> best_ask st' = best_ask st)"
proof -
  note facts = apply_book_snapshot_Inr [OF assms]
  have len: "length (parsed_prices m) = length m" for m
    by (simp add: parsed_prices_def)
  have bid: "\<exists>m. best_bid st' = Some m \<and> m \<in> set (parsed_prices (bids st')) \<and>
                 (\<forall>p \<in> set (parsed_prices (bids st')). \<not> num_lt m p) \<and>
                 (2 \<le> length (bids st') \<longrightarrow> \<not> list_ex is_nan (parsed_prices (bids st')))"
    if "bids st' \<noteq> []"
  proof -
    from facts(3) [OF that] obtain m where m: "best_bid st' = Some m"
      "py_max (parsed_prices (bids st')) = Inr m"
      by blast
    from py_max_spec [OF m(2)] m(1) show ?thesis
      by (simp add: len)
  qed
  have ask: "\<exists>m. best_ask st' = Some m \<and> m \<in> set (parsed_prices (asks st')) \<and>
                 (\<forall>p \<in> set (parsed_prices (asks st')). \<not> num_lt p m) \<and>
                 (2 \<le> length (asks st') \<longrightarrow> \<not> list_ex is_nan (parsed_prices (asks st')))"
    if "asks st' \<noteq> []"
  proof -
    from facts(5) [OF that] obtain m where m: "best_ask st' = Some m"
      "py_min (parsed_prices (asks st')) = Inr m"
      by blast
    from py_min_spec [OF m(2)] m(1) show ?thesis
      by (simp add: len)
  qed
  show ?thesis
    using facts(1,2,4,6) bid ask by blast
qed

lemma snapshot_example_applied:
  "apply_book_snapshot empty_book snapshot_example = Inr book_example"
  by (simp add: book_example_def snapshot_example_def empty_book_def level_def
      parse_defs dec_defs book_defs)

lemma empty_sides_applied:
  "apply_book_snapshot book_example [(''bids'', JList [level ''0.45'' ''0''])] =
     Inr (book_example\<lparr>bids := [], asks := []\<rparr>)"
  by (simp add: book_example_def level_def parse_defs dec_defs book_defs)

theorem snapshot_best_prices_witness:
  "apply_book_snapshot empty_book snapshot_example = Inr book_example \<and>
   bids book_example = [(''0.4500'', Finite False 10 0)] \<and>
   best_bid book_example = Some (Finite False 4500 (- 4)) \<and>
   parsed_prices (bids book_example) = [Finite False 4500 (- 4)] \<and>
   asks book_example = [(''0.5500'', Finite False 5 0)] \<and>
   best_ask book_example = Some (Finite False 5500 (- 4)) \<and>
   parsed_prices (asks book_example) = [Finite False 5500 (- 4)] \<and>
   apply_book_snapshot book_example [(''bids'', JList [level ''0.45'' ''0''])] =
     Inr (book_example\<lparr>bids := [], asks := []\<rparr>) \<and>
   best_bid (book_example\<lparr>bids := [], asks := []\<rparr>) = best_bid book_example \<and>
   best_ask (book_example\<lparr>bids := [], asks := []\<rparr>) = best_ask book_example"
  using snapshot_best_prices [OF snapshot_example_applied]
    snapshot_best_prices [OF empty_sides_applied]
    snapshot_example_applied empty_sides_applied
  by (simp add: book_example_def parsed_prices_def parse_defs)

subsection \<open>Price changes\<close>

lemma change_state_levels [simp]:
  "bids (change_state st item) = bids st" "asks (change_state st item) = asks st"
  by (simp_all add: change_state_def Let_def)











subsection \<open>Sizes in the level maps\<close>

text \<open>\<^verbatim>\<open>size > 0\<close> is true of the positive finite decimals and of the positive infinity.\<close>

lemma gt_zero_iff:
  "gt_zero d = Inr True \<longleftrightarrow> d = Infinity False \<or> (\<exists>c e. d = Finite False c e \<and> 0 < c)"
  by (cases d) (auto simp: gt_zero_def dec_gt_def dec_lt_def is_nan_def scaled_def
      zero_less_mult_iff mult_less_0_iff)

lemma update_list_all: "list_all P al \<Longrightarrow> P (k, v) \<Longrightarrow> list_all P (AList.update k v al)"
  by (induction al) auto

lemma fill_map_positive:
  "fill_map lvls m = Inr m' \<Longrightarrow> list_all (\<lambda>kv. gt_zero (snd kv) = Inr True) m \<Longrightarrow>
   list_all (\<lambda>kv. gt_zero (snd kv) = Inr True) m'"
proof (induction lvls arbitrary: m)
  case Nil
  then show ?case by simp
next
  case (Cons lvl lvls)
  let ?sz = "to_decimal (get lvl ''size'')"
  from Cons.prems(1) obtain pos where pos: "gt_zero ?sz = Inr pos"
    by (auto simp: Let_def split: sum.splits)
  show ?case
  proof (cases pos)
    case True
    with Cons.prems(1) pos obtain k where
      k: "fill_map lvls (AList.update k ?sz m) = Inr m'"
      by (auto simp: Let_def split: sum.splits)
    have "list_all (\<lambda>kv. gt_zero (snd kv) = Inr True) (AList.update k ?sz m)"
      using Cons.prems(2) pos True by (intro update_list_all) simp_all
    from Cons.IH [OF k this] show ?thesis .
  next
    case False
    with Cons.prems(1) pos have "fill_map lvls m = Inr m'"
      by (simp add: Let_def)
    from Cons.IH [OF this Cons.prems(2)] show ?thesis .
  qed
qed

lemma snapshot_positive: "apply_book_snapshot st msg = Inr st' \<Longrightarrow> sizes_positive st'"
  using apply_book_snapshot_Inr(1,2) [of st msg st'] fill_map_positive [of _ "[]"]
  by (simp add: sizes_positive_def)

lemma change_state_positive: "sizes_positive (change_state st item) = sizes_positive st"
  by (simp add: sizes_positive_def)

lemma books_lookup_positive:
  assumes "books_positive bks" "map_of bks t = Some st"
  shows "sizes_positive st"
proof -
  have "(t, st) \<in> set bks"
    using assms(2) by (rule map_of_SomeD)
  with assms(1) show ?thesis
    unfolding books_positive_def list_all_iff by fastforce
qed

lemma books_update_positive:
  "books_positive bks \<Longrightarrow> sizes_positive st \<Longrightarrow> books_positive (AList.update t st bks)"
  unfolding books_positive_def by (rule update_list_all) simp_all

lemma change_item_positive:
  assumes "books_positive (fst acc)"
  shows "books_positive (fst (change_item item acc))"
proof (cases "map_of (fst acc) (asset_id_of item)")
  case None
  with assms show ?thesis by (simp add: change_item_def)
next
  case (Some st)
  have "sizes_positive (change_state st item)"
    using books_lookup_positive [OF assms Some] by (simp add: change_state_positive)
  with assms Some show ?thesis
    by (simp add: change_item_def books_update_positive)
qed

lemma fold_change_item_positive:
  "books_positive (fst acc) \<Longrightarrow> books_positive (fst (fold change_item items acc))"
  by (induction items arbitrary: acc) (simp_all add: change_item_positive)

lemma apply_price_change_positive:
  "books_positive bks \<Longrightarrow> books_positive (fst (apply_price_change bks msg))"
  using fold_change_item_positive [of "(bks, False)"] by (simp add: apply_price_change_def)

lemma process_msg_positive:
  assumes "process_msg msg acc = Inr acc'" "books_positive (fst acc)"
  shows "books_positive (fst acc')"
proof (cases "is_snapshot msg")
  case True
  show ?thesis
  proof (cases "map_of (fst acc) (asset_id_of msg)")
    case None
    with True assms show ?thesis by (simp add: process_msg_def)
  next
    case (Some st)
    with True assms(1) obtain st' where st': "apply_book_snapshot st msg = Inr st'"
      "acc' = (AList.update (asset_id_of msg) st' (fst acc), True)"
      by (auto simp: process_msg_def split: sum.splits)
    then show ?thesis
      using assms(2) by (simp add: books_update_positive snapshot_positive)
  qed
next
  case False
  show ?thesis
  proof (cases "event_type_of msg = ''price_change''")
    case True
    obtain bks ch where r: "apply_price_change (fst acc) msg = (bks, ch)"
      by (cases "apply_price_change (fst acc) msg")
    have "books_positive bks"
      using apply_price_change_positive [OF assms(2), of msg] r by simp
    with assms(1) False True r show ?thesis
      by (auto simp: process_msg_def)
  next
    case no: False
    with assms False show ?thesis by (simp add: process_msg_def)
  qed
qed

lemma process_msgs_positive:
  "process_msgs msgs acc = Inr acc' \<Longrightarrow> books_positive (fst acc) \<Longrightarrow> books_positive (fst acc')"
proof (induction msgs arbitrary: acc)
  case Nil
  then show ?case by simp
next
  case (Cons msg msgs)
  from Cons.prems(1) obtain mid where mid: "process_msg msg acc = Inr mid"
    "process_msgs msgs mid = Inr acc'"
    by (auto split: sum.splits)
  from Cons.IH [OF mid(2) process_msg_positive [OF mid(1) Cons.prems(2)]] show ?case .
qed

lemma process_frame_positive:
  assumes "process_frame bks payload = Inr r" "books_positive bks"
  shows "books_positive (fst r)"
proof (cases payload)
  case (JList xs)
  with assms show ?thesis
    using process_msgs_positive [of "dicts_of xs" "(bks, False)" r]
    by (simp add: process_frame_def)
next
  case (JObj d)
  with assms show ?thesis
    using process_msgs_positive [of "[d]" "(bks, False)" r]
    by (simp add: process_frame_def del: process_msgs.simps)
qed (use assms in \<open>auto simp: process_frame_def\<close>)

lemma step_positive:
  "step s ev = Running s' \<Longrightarrow> books_positive (books s) \<Longrightarrow> books_positive (books s')"
  by (auto simp: step_def on_frame_def on_error_def
      split: phase.splits event.splits frame.splits sum.splits if_splits
      dest: process_frame_positive)

lemma run_positive:
  "run s evs = Running s' \<Longrightarrow> books_positive (books s) \<Longrightarrow> books_positive (books s')"
proof (induction evs arbitrary: s)
  case Nil
  then show ?case by simp
next
  case (Cons ev evs)
  then show ?case
    by (auto split: outcome.splits dest: step_positive)
qed

lemma fold_update_positive:
  "books_positive bks \<Longrightarrow> books_positive (fold (\<lambda>t b. AList.update t empty_book b) ts bks)"
proof (induction ts arbitrary: bks)
  case Nil
  then show ?case by simp
next
  case (Cons t ts)
  have "sizes_positive empty_book"
    by (simp add: sizes_positive_def empty_book_def)
  with Cons show ?case
    by (simp add: books_update_positive)
qed

lemma init_positive: "books_positive (init_books token_ids)"
  unfolding init_books_def by (rule fold_update_positive) (simp add: books_positive_def)

text \<open>
  C6. In every session that the loop reaches from the start, every size stored in the bids
  or asks map of every instrument compares greater than zero. The books start empty; a
  snapshot that is applied leaves only such sizes in the state, whatever it held before,
  because a level is stored only when \<^verbatim>\<open>size > 0\<close>; a frame of price changes keeps the
  property.
\<close>

theorem sizes_positive_invariant:
  "(stream_market_orderbook token_ids evs = Running s \<longrightarrow> books_positive (books s)) \<and>
   books_positive (init_books token_ids) \<and>
   (apply_book_snapshot st msg = Inr st' \<longrightarrow> sizes_positive st') \<and>
   (fill_map lvls [] = Inr m \<longrightarrow> list_all (\<lambda>kv. gt_zero (snd kv) = Inr True) m) \<and>
   (books_positive bks \<longrightarrow> books_positive (fst (apply_price_change bks changes)))"
proof -
  have "books_positive (books s)" if "stream_market_orderbook token_ids evs = Running s"
    using run_positive [OF that [unfolded stream_market_orderbook_def]] init_positive
    by (simp add: init_def)
  moreover have "list_all (\<lambda>kv. gt_zero (snd kv) = Inr True) m" if "fill_map lvls [] = Inr m"
    using fill_map_positive [OF that] by simp
  ultimately show ?thesis
    using init_positive snapshot_positive apply_price_change_positive by blast
qed

lemma example_run:
  "stream_market_orderbook [''X'']
     [Established, Received (Decoded (JObj snapshot_example)), Received (Decoded (JObj delta_example))] =
   Running \<lparr>books = [(''X'', book_example\<lparr>best_bid := Some (Finite False 46 (- 2))\<rparr>)],
            reconnect_delay = 1, phase = Streaming, sleeps = []\<rparr>"
  by (simp add: snapshot_example_def delta_example_def book_example_def level_def
      parse_defs dec_defs book_defs loop_defs)

theorem sizes_positive_invariant_witness:
  "stream_market_orderbook [''X'']
     [Established, Received (Decoded (JObj snapshot_example)), Received (Decoded (JObj delta_example))] =
   Running \<lparr>books = [(''X'', book_example\<lparr>best_bid := Some (Finite False 46 (- 2))\<rparr>)],
            reconnect_delay = 1, phase = Streaming, sleeps = []\<rparr> \<and>
   books_positive [(''X'', book_example\<lparr>best_bid := Some (Finite False 46 (- 2))\<rparr>)] \<and>
   apply_book_snapshot empty_book snapshot_example = Inr book_example \<and>
   sizes_positive book_example \<and>
   fill_map [[(''price'', JStr ''0.45''), (''size'', JStr ''10'')],
             [(''price'', JStr ''0.40''), (''size'', JStr ''0'')]] [] =
     Inr [(''0.4500'', Finite False 10 0)] \<and>
   books_positive (fst (apply_price_change [(''X'', book_example)] delta_example))"
proof -
  have f: "fill_map [[(''price'', JStr ''0.45''), (''size'', JStr ''10'')],
             [(''price'', JStr ''0.40''), (''size'', JStr ''0'')]] [] =
     Inr [(''0.4500'', Finite False 10 0)]"
    by (simp add: parse_defs dec_defs book_defs)
  have b: "books_positive [(''X'', book_example)]"
    by (simp add: books_positive_def sizes_positive_def book_example_def dec_defs)
  from sizes_positive_invariant
    [of "[''X'']"
        "[Established, Received (Decoded (JObj snapshot_example)), Received (Decoded (JObj delta_example))]"
        "\<lparr>books = [(''X'', book_example\<lparr>best_bid := Some (Finite False 46 (- 2))\<rparr>)],
          reconnect_delay = 1, phase = Streaming, sleeps = []\<rparr>"
        empty_book snapshot_example book_example
        "[[(''price'', JStr ''0.45''), (''size'', JStr ''10'')],
          [(''price'', JStr ''0.40''), (''size'', JStr ''0'')]]"
        "[(''0.4500'', Finite False 10 0)]"
        "[(''X'', book_example)]" delta_example]
  show ?thesis
    using example_run snapshot_example_applied f b by simp
qed

subsection \<open>Price keys\<close>

lemma quantize_Finite:
  "quantize d = Inr q \<Longrightarrow> \<not> is_nan q \<Longrightarrow> \<exists>sg c. q = Finite sg c (- 4)"
  by (cases d) (auto simp: is_nan_def split: if_splits)

lemma num_eq_same_exponent:
  "num_eq (Finite s1 c1 e) (Finite s2 c2 e) \<longleftrightarrow> (c1 = 0 \<and> c2 = 0) \<or> (s1 = s2 \<and> c1 = c2)"
proof -
  have "int c1 = - int c2 \<longleftrightarrow> c1 = 0 \<and> c2 = 0"
    by linarith
  moreover have "- int c1 = int c2 \<longleftrightarrow> c1 = 0 \<and> c2 = 0"
    by linarith
  ultimately show ?thesis
    by (auto simp: num_eq_def is_nan_def scaled_def)
qed

text \<open>Two prices whose rounded values are numerically equal get the same key, unless both
  round to zero with different signs.\<close>

lemma equal_prices_same_key:
  assumes "quantize a = Inr qa" "quantize b = Inr qb" "num_eq qa qb"
    and "qa \<noteq> Finite False 0 (- 4) \<or> qb \<noteq> Finite True 0 (- 4)"
    and "qa \<noteq> Finite True 0 (- 4) \<or> qb \<noteq> Finite False 0 (- 4)"
  shows "price_key a = price_key b"
proof -
  from assms(3) have nn: "\<not> is_nan qa" "\<not> is_nan qb"
    by (simp_all add: num_eq_def)
  from quantize_Finite [OF assms(1) nn(1)] obtain s1 c1 where qa: "qa = Finite s1 c1 (- 4)"
    by blast
  from quantize_Finite [OF assms(2) nn(2)] obtain s2 c2 where qb: "qb = Finite s2 c2 (- 4)"
    by blast
  have "qa = qb"
    using assms(3-5) unfolding qa qb num_eq_same_exponent by (cases s1; cases s2) auto
  then show ?thesis
    using assms(1,2) by (simp add: price_key_def)
qed

text \<open>Two levels with the same key and positive sizes: the later size is the one stored.\<close>

lemma colliding_levels_later_size:
  assumes "price_key (to_decimal (get l1 ''price'')) = Inr k"
    and "price_key (to_decimal (get l2 ''price'')) = Inr k"
    and "gt_zero (to_decimal (get l1 ''size'')) = Inr True"
    and "gt_zero (to_decimal (get l2 ''size'')) = Inr True"
  shows "fill_map [l1, l2] m = Inr (AList.update k (to_decimal (get l2 ''size'')) m)"
  using assms by (simp add: Let_def)

text \<open>
  C8. The prices \<^verbatim>\<open>0\<close> and \<^verbatim>\<open>-0\<close> round to numerically equal values, and their keys
  differ: \<^verbatim>\<open>format\<close> keeps the sign of a zero. A side list with both levels leaves two
  entries in the map.
\<close>

theorem signed_zero_keys_differ:
  "quantize (to_decimal (JStr ''0'')) = Inr (Finite False 0 (- 4)) \<and>
   quantize (to_decimal (JStr ''-0'')) = Inr (Finite True 0 (- 4)) \<and>
   num_eq (Finite False 0 (- 4)) (Finite True 0 (- 4)) \<and>
   price_key (to_decimal (JStr ''0'')) = Inr ''0.0000'' \<and>
   price_key (to_decimal (JStr ''-0'')) = Inr ''-0.0000'' \<and>
   fill_map (bids_levels zero_snapshot_example) [] =
     Inr [(''0.0000'', Finite False 1 0), (''-0.0000'', Finite False 2 0)]"
  by (simp add: zero_snapshot_example_def level_def num_eq_def parse_defs dec_defs book_defs)

subsection \<open>Levels read for display\<close>






















subsection \<open>Numeric decoding\<close>










subsection \<open>Backoff\<close>

lemma step_delay_ok: "step s ev = Running s' \<Longrightarrow> delay_ok s \<Longrightarrow> delay_ok s'"
  by (auto simp: step_def on_frame_def on_error_def delay_ok_def
      split: phase.splits event.splits frame.splits sum.splits if_splits)

lemma run_delay_ok: "run s evs = Running s' \<Longrightarrow> delay_ok s \<Longrightarrow> delay_ok s'"
proof (induction evs arbitrary: s)
  case Nil
  then show ?case by simp
next
  case (Cons ev evs)
  then show ?case
    by (auto split: outcome.splits dest: step_delay_ok)
qed

lemma init_delay_ok: "delay_ok (init token_ids)"
  by (simp add: delay_ok_def init_def)

lemma min_double: "min 30 (min 30 (d * 2) * 2 ^ i) = min (30::rat) (d * (2 * 2 ^ i))"
proof (cases "d \<le> 15")
  case True
  then show ?thesis by (simp add: mult.assoc)
next
  case False
  have one: "(1::rat) \<le> 2 ^ i" by simp
  have "d * 1 \<le> d * 2 ^ i"
    using one False by (intro mult_left_mono) simp_all
  then have big: "15 \<le> d * 2 ^ i"
    using False by linarith
  have "(1::rat) * 1 \<le> 1 * 2 ^ i"
    using one by simp
  then show ?thesis
    using False big by (simp add: min_def)
qed

lemma run_failures:
  "list_all caught es \<Longrightarrow> phase s \<noteq> Backoff \<Longrightarrow> reconnect_delay s \<le> 30 \<Longrightarrow>
   \<exists>s'. run s (failures es) = Running s' \<and> books s' = books s \<and>
        sleeps s' = sleeps s @ map (\<lambda>i. min 30 (reconnect_delay s * 2 ^ i)) [0..<length es] \<and>
        reconnect_delay s' = min 30 (reconnect_delay s * 2 ^ length es) \<and>
        phase s' = (if es = [] then phase s else Connecting)"
proof (induction es arbitrary: s)
  case Nil
  then show ?case by (simp add: failures_def)
next
  case (Cons e es)
  let ?t = "s\<lparr>sleeps := sleeps s @ [reconnect_delay s],
                reconnect_delay := min 30 (reconnect_delay s * 2), phase := Connecting\<rparr>"
  have c: "caught e" and r: "list_all caught es" using Cons.prems(1) by simp_all
  have two: "run s (failures (e # es)) = run ?t (failures es)"
    using c Cons.prems(2) by (cases "phase s") (simp_all add: failures_def step_def on_error_def)
  have "phase ?t \<noteq> Backoff" and "reconnect_delay ?t \<le> 30" by simp_all
  from Cons.IH [OF r this] obtain s' where
    s': "run ?t (failures es) = Running s'" "books s' = books ?t"
      "sleeps s' = sleeps ?t @ map (\<lambda>i. min 30 (reconnect_delay ?t * 2 ^ i)) [0..<length es]"
      "reconnect_delay s' = min 30 (reconnect_delay ?t * 2 ^ length es)"
      "phase s' = (if es = [] then phase ?t else Connecting)"
    by blast
  have shift: "map (\<lambda>i. min 30 (reconnect_delay s * 2 ^ i)) [0..<length (e # es)] =
      reconnect_delay s # map (\<lambda>i. min 30 (reconnect_delay ?t * 2 ^ i)) [0..<length es]"
    using Cons.prems(3) by (simp add: map_upt_Suc min_double del: upt_Suc)
  show ?case
    unfolding two shift using s' by (auto simp: min_double)
qed

text \<open>
  C7. In every session reached from the start the delay lies between 1 and 30 and is 1
  while streaming. From a streaming session, any number of consecutive caught failures
  (each followed by its sleep) sleeps for 1, 2, 4, ...: the \<open>i\<close>-th delay is
  \<open>min 30 (2 ^ i)\<close>, so three failures sleep 1, 2 and 4; the delay doubles after each
  sleep up to the cap 30; and connecting and subscribing again sets it back to 1.
\<close>

theorem backoff_policy:
  assumes "stream_market_orderbook token_ids evs = Running s"
  shows "1 \<le> reconnect_delay s \<and> reconnect_delay s \<le> 30 \<and>
         (phase s = Streaming \<longrightarrow>
            reconnect_delay s = 1 \<and>
            (\<forall>es. list_all caught es \<longrightarrow>
               (\<exists>s'. run s (failures es) = Running s' \<and>
                     sleeps s' = sleeps s @ map (\<lambda>i. min 30 (2 ^ i)) [0..<length es] \<and>
                     reconnect_delay s' = min 30 (2 ^ length es) \<and>
                     (length es = 3 \<longrightarrow> sleeps s' = sleeps s @ [1, 2, 4]) \<and>
                     (es \<noteq> [] \<longrightarrow>
                        step s' Established = Running (s'\<lparr>reconnect_delay := 1, phase := Streaming\<rparr>))))) \<and>
         (phase s = Backoff \<longrightarrow>
            step s Slept =
              Running (s\<lparr>reconnect_delay := min 30 (reconnect_delay s * 2), phase := Connecting\<rparr>)) \<and>
         (phase s \<noteq> Backoff \<longrightarrow>
            (\<forall>e. caught e \<longrightarrow>
               step s (Raised e) =
                 Running (s\<lparr>phase := Backoff, sleeps := sleeps s @ [reconnect_delay s]\<rparr>)))"
proof -
  have ok: "delay_ok s"
    using assms init_delay_ok run_delay_ok unfolding stream_market_orderbook_def by blast
  have bounds: "1 \<le> reconnect_delay s" "reconnect_delay s \<le> 30"
    using ok by (simp_all add: delay_ok_def)
  have streaming: "reconnect_delay s = 1" if "phase s = Streaming"
    using ok that by (simp add: delay_ok_def)
  have fails: "\<exists>s'. run s (failures es) = Running s' \<and>
                     sleeps s' = sleeps s @ map (\<lambda>i. min 30 (2 ^ i)) [0..<length es] \<and>
                     reconnect_delay s' = min 30 (2 ^ length es) \<and>
                     (length es = 3 \<longrightarrow> sleeps s' = sleeps s @ [1, 2, 4]) \<and>
                     (es \<noteq> [] \<longrightarrow>
                        step s' Established = Running (s'\<lparr>reconnect_delay := 1, phase := Streaming\<rparr>))"
    if st: "phase s = Streaming" and c: "list_all caught es" for es
  proof -
    from run_failures [OF c, of s] st bounds obtain s' where
      s': "run s (failures es) = Running s'"
        "sleeps s' = sleeps s @ map (\<lambda>i. min 30 (reconnect_delay s * 2 ^ i)) [0..<length es]"
        "reconnect_delay s' = min 30 (reconnect_delay s * 2 ^ length es)"
        "phase s' = (if es = [] then phase s else Connecting)"
      by auto
    have three: "map (\<lambda>i. min (30::rat) (2 ^ i)) [0..<3] = [1, 2, 4]"
      by (simp add: upt_rec numeral_eq_Suc)
    show ?thesis
      using s' streaming [OF st] three by (auto simp: step_def)
  qed
  have sleep: "step s Slept =
      Running (s\<lparr>reconnect_delay := min 30 (reconnect_delay s * 2), phase := Connecting\<rparr>)"
    if "phase s = Backoff"
    using that by (simp add: step_def)
  have raise: "step s (Raised e) =
      Running (s\<lparr>phase := Backoff, sleeps := sleeps s @ [reconnect_delay s]\<rparr>)"
    if "phase s \<noteq> Backoff" "caught e" for e
    using that by (cases "phase s") (simp_all add: step_def on_error_def)
  show ?thesis
  proof (intro conjI impI allI)
    show "1 \<le> reconnect_delay s" "reconnect_delay s \<le> 30"
      by (rule bounds)+
  qed (rule streaming fails sleep raise; assumption)+
qed

theorem backoff_policy_witness:
  "stream_market_orderbook [''X''] [Established] =
     Running \<lparr>books = init_books [''X''], reconnect_delay = 1, phase = Streaming, sleeps = []\<rparr> \<and>
   (\<exists>s'. run \<lparr>books = init_books [''X''], reconnect_delay = 1, phase = Streaming, sleeps = []\<rparr>
            (failures [OSError, TimeoutError, ConnectionClosed]) = Running s' \<and>
         sleeps s' = [1, 2, 4] \<and> reconnect_delay s' = 8 \<and>
         step s' Established = Running (s'\<lparr>reconnect_delay := 1, phase := Streaming\<rparr>))"
proof -
  let ?s = "\<lparr>books = init_books [''X''], reconnect_delay = 1, phase = Streaming, sleeps = []\<rparr>"
  have r: "stream_market_orderbook [''X''] [Established] = Running ?s"
    by (simp add: stream_market_orderbook_def init_def step_def)
  have c: "list_all caught [OSError, TimeoutError, ConnectionClosed]"
    by (simp add: caught_def)
  have st: "phase ?s = Streaming"
    by simp
  from backoff_policy [OF r] st have
    "\<forall>es. list_all caught es \<longrightarrow>
       (\<exists>s'. run ?s (failures es) = Running s' \<and>
             sleeps s' = sleeps ?s @ map (\<lambda>i. min 30 (2 ^ i)) [0..<length es] \<and>
             reconnect_delay s' = min 30 (2 ^ length es) \<and>
             (length es = 3 \<longrightarrow> sleeps s' = sleeps ?s @ [1, 2, 4]) \<and>
             (es \<noteq> [] \<longrightarrow>
                step s' Established = Running (s'\<lparr>reconnect_delay := 1, phase := Streaming\<rparr>)))"
    by blast
  from this [rule_format, OF c] obtain s' where
    "run ?s (failures [OSError, TimeoutError, ConnectionClosed]) = Running s'"
    "sleeps s' = sleeps ?s @ [1, 2, 4]"
    "reconnect_delay s' = min 30 (2 ^ length [OSError, TimeoutError, ConnectionClosed])"
    "step s' Established = Running (s'\<lparr>reconnect_delay := 1, phase := Streaming\<rparr>)"
    by auto
  then show ?thesis
    using r by auto
qed


end
